theory Spec2Isabelle
  imports Main "HOL-Library.Word" "HOL-Library.Signed_Division"
begin

section \<open>Data model of rpc/mining.cpp\<close>

text \<open>
  The embedding follows \<^verbatim>\<open>src/rpc/mining.cpp\<close>. Exceptions, failed assertions and
  undefined behaviour are values of the type \<open>failure\<close> (\<open>RuntimeError\<close> is a
  \<^verbatim>\<open>std::runtime_error\<close>); a function that can fail returns
  \<open>failure + 'a\<close> with \<open>Inl\<close> for the failure. Collaborators that live outside the file
  (block hashing, proof-of-work check, block assembler, validation engine) are function
  parameters.
\<close>

type_synonym uint256 = "256 word"
type_synonym byte = "8 word"

datatype RPCErrorCode =
    RPC_INTERNAL_ERROR
  | RPC_OUT_OF_MEMORY
  | RPC_DESERIALIZATION_ERROR
  | RPC_TRANSACTION_REJECTED
  | RPC_VERIFY_ERROR
  | RPC_CLIENT_NOT_CONNECTED

datatype failure =
    JSONRPCError RPCErrorCode string
  | RuntimeError string
  | OutOfRange
  | AssertionFailure
  | UndefinedBehaviour

text \<open>
  The JSON values the functions of the file return. \<open>VQUOT w t\<close> stands for the double
  \<^verbatim>\<open>w.getdouble() / t\<close>: the floating-point division itself is not computed, its two
  integer operands are kept.
\<close>

datatype UniValue =
    NullUniValue
  | VSTR string
  | VNUM int
  | VBOOL bool
  | VQUOT "256 word" int
  | VARR "UniValue list"

subsection \<open>Validation state\<close>

text \<open>
  Modelled from the spec: \<^verbatim>\<open>CValidationState\<close> is declared in consensus/validation.h,
  outside the file. The spec distinguishes a valid state, an invalid state and an
  engine-internal error state, each carrying a reject reason.
\<close>

datatype mode_state = MODE_VALID | MODE_INVALID | MODE_ERROR

record CValidationState =
  mode :: mode_state
  strRejectReason :: string

definition IsValid :: "CValidationState \<Rightarrow> bool" where
  "IsValid st = (mode st = MODE_VALID)"

definition IsInvalid :: "CValidationState \<Rightarrow> bool" where
  "IsInvalid st = (mode st = MODE_INVALID)"

definition IsError :: "CValidationState \<Rightarrow> bool" where
  "IsError st = (mode st = MODE_ERROR)"

definition GetRejectReason :: "CValidationState \<Rightarrow> string" where
  "GetRejectReason st = strRejectReason st"

subsection \<open>Transactions, blocks, block index\<close>

text \<open>
  \<^verbatim>\<open>CTransaction\<close>, \<^verbatim>\<open>CBlock\<close> and \<^verbatim>\<open>CBlockIndex\<close> are declared outside the
  file. The model keeps the members that the file reads or writes, under their names. The
  member functions whose bodies the file does not contain (\<^verbatim>\<open>IsCoinBase()\<close>,
  \<^verbatim>\<open>HasP2SHOutput()\<close>, \<^verbatim>\<open>IsValid(BlockValidity::SCRIPTS)\<close>,
  \<^verbatim>\<open>getStatus().isInvalid()\<close>) are parameters: each is a field that holds its answer.
  An index entry holds its predecessor, as the pointer \<^verbatim>\<open>pprev\<close> does; the genesis
  entry has none.
\<close>

record CTxIn =
  scriptSig :: "byte list"

record CTransaction =
  vin :: "CTxIn list"
  IsCoinBase :: bool
  HasP2SHOutput :: bool

record CBlock =
  hashPrevBlock :: uint256
  hashMerkleRoot :: uint256
  nBits :: "32 word"
  nNonce :: "32 word"
  vtx :: "CTransaction list"

datatype CBlockIndex =
  CBlockIndex
    (GetBlockHash: uint256)
    (GetHeight: int)
    (GetBlockTime: int)
    (GetChainWork: "256 word")
    (IsValid_SCRIPTS: bool)
    (isInvalid: bool)
    (GetPrev: "CBlockIndex option")

section \<open>Block submission: processBlock\<close>

fun BIP22ValidationResult :: "CValidationState \<Rightarrow> failure + UniValue" where
  "BIP22ValidationResult st =
     (if IsValid st then Inr NullUniValue
      else if IsError st then Inl (JSONRPCError RPC_VERIFY_ERROR (GetRejectReason st))
      else if IsInvalid st then
        (if GetRejectReason st = [] then Inr (VSTR ''rejected'')
         else Inr (VSTR (GetRejectReason st)))
      else Inr (VSTR ''valid?''))"

record submitblock_StateCatcher =
  sc_hash :: uint256
  sc_found :: bool
  sc_state :: CValidationState

definition new_StateCatcher :: "uint256 \<Rightarrow> submitblock_StateCatcher" where
  "new_StateCatcher hashIn =
     \<lparr>sc_hash = hashIn, sc_found = False,
      sc_state = \<lparr>mode = MODE_VALID, strRejectReason = []\<rparr>\<rparr>"

definition BlockChecked ::
  "(CBlock \<Rightarrow> uint256) \<Rightarrow> submitblock_StateCatcher \<Rightarrow> CBlock \<times> CValidationState
     \<Rightarrow> submitblock_StateCatcher" where
  "BlockChecked GetHash sc note =
     (if GetHash (fst note) \<noteq> sc_hash sc then sc
      else sc\<lparr>sc_found := True, sc_state := snd note\<rparr>)"

text \<open>
  The validation engine is the parameter \<open>performBlockOperation\<close>, a
  \<^verbatim>\<open>std::function<bool(...)>\<close>. For a block it gives how the call ends and the
  \<^verbatim>\<open>BlockChecked\<close> notifications it sends, in order, while the call runs. The call ends
  with \<open>Inr b\<close> when it returns the boolean \<open>b\<close>, and with \<open>Inl e\<close> when the exception
  \<open>e\<close> leaves it: nothing in the type of a \<^verbatim>\<open>std::function\<close> keeps it from throwing,
  and \<open>processBlock\<close> has no handler around the call.
\<close>

type_synonym block_operation =
  "CBlock \<Rightarrow> (failure + bool) \<times> (CBlock \<times> CValidationState) list"

text \<open>
  The registry of validation interfaces lives outside the file. It is modelled as the list
  of the attached catchers, each under the address of its object, and a log of what was
  done to the registry. Registering appends the object, unregistering removes the object
  with that address, and a call of the engine hands every notification of the call to
  every attached catcher.
\<close>

datatype event = Registered nat | EngineCalled | Unregistered nat

record signals =
  sig_interfaces :: "(nat \<times> submitblock_StateCatcher) list"
  sig_log :: "event list"

definition RegisterValidationInterface ::
  "nat \<Rightarrow> submitblock_StateCatcher \<Rightarrow> signals \<Rightarrow> signals" where
  "RegisterValidationInterface addr sc s =
     s\<lparr>sig_interfaces := sig_interfaces s @ [(addr, sc)], sig_log := sig_log s @ [Registered addr]\<rparr>"

definition UnregisterValidationInterface :: "nat \<Rightarrow> signals \<Rightarrow> signals" where
  "UnregisterValidationInterface addr s =
     s\<lparr>sig_interfaces := filter (\<lambda>e. fst e \<noteq> addr) (sig_interfaces s),
       sig_log := sig_log s @ [Unregistered addr]\<rparr>"

definition call_operation ::
  "(CBlock \<Rightarrow> uint256) \<Rightarrow> block_operation \<Rightarrow> CBlock \<Rightarrow> signals
     \<Rightarrow> (failure + bool) \<times> signals" where
  "call_operation GetHash performBlockOperation block s =
     (fst (performBlockOperation block),
      s\<lparr>sig_interfaces :=
          map (\<lambda>e. (fst e, foldl (BlockChecked GetHash) (snd e) (snd (performBlockOperation block))))
            (sig_interfaces s),
        sig_log := sig_log s @ [EngineCalled]\<rparr>)"

text \<open>
  The catcher of a call is an object on the stack of that call: its address is one that no
  attached catcher has. After the engine call the object is read where it stands. When an
  exception leaves the engine call, the statements after it are not reached: the exception
  leaves \<open>processBlock\<close> too, and the registry is as the engine call left it.
\<close>

definition stack_address :: "signals \<Rightarrow> nat" where
  "stack_address s = Suc (foldr max (map fst (sig_interfaces s)) 0)"

definition catcher_at :: "nat \<Rightarrow> submitblock_StateCatcher \<Rightarrow> signals \<Rightarrow> submitblock_StateCatcher" where
  "catcher_at addr sc0 s = (case map_of (sig_interfaces s) addr of Some sc \<Rightarrow> sc | None \<Rightarrow> sc0)"

text \<open>Lines 839 to 854: the part of \<open>processBlock\<close> after the duplicate check.\<close>

definition processBlock_validate ::
  "(CBlock \<Rightarrow> uint256) \<Rightarrow> block_operation \<Rightarrow> signals \<Rightarrow> CBlock \<Rightarrow> bool
     \<Rightarrow> (failure + UniValue) \<times> signals" where
  "processBlock_validate GetHash performBlockOperation g_signals block fBlockPresent =
     (let addr = stack_address g_signals;
          sc0 = new_StateCatcher (GetHash block);
          s1 = RegisterValidationInterface addr sc0 g_signals;
          (outcome, s2) = call_operation GetHash performBlockOperation block s1
      in case outcome of
           Inl e \<Rightarrow> (Inl e, s2)
         | Inr fAccepted \<Rightarrow>
            (let sc = catcher_at addr sc0 s2;
                 s3 = UnregisterValidationInterface addr s2
             in if fBlockPresent then
                  (if fAccepted \<and> \<not> sc_found sc then (Inr (VSTR ''duplicate-inconclusive''), s3)
                   else (Inr (VSTR ''duplicate''), s3))
                else if \<not> sc_found sc then (Inr (VSTR ''inconclusive''), s3)
                else (BIP22ValidationResult (sc_state sc), s3)))"

definition processBlock ::
  "(CBlock \<Rightarrow> uint256) \<Rightarrow> (uint256 \<Rightarrow> CBlockIndex option) \<Rightarrow> block_operation \<Rightarrow> signals
     \<Rightarrow> CBlock \<Rightarrow> (failure + UniValue) \<times> signals" where
  "processBlock GetHash mapBlockIndex performBlockOperation g_signals block =
     (if vtx block = [] \<or> \<not> IsCoinBase (hd (vtx block)) then
        (Inl (JSONRPCError RPC_DESERIALIZATION_ERROR ''Block does not start with a coinbase''),
         g_signals)
      else if HasP2SHOutput (hd (vtx block)) then
        (Inl (JSONRPCError RPC_TRANSACTION_REJECTED ''bad-txns-vout-p2sh''), g_signals)
      else
        (case mapBlockIndex (GetHash block) of
           Some pindex \<Rightarrow>
             if IsValid_SCRIPTS pindex then (Inr (VSTR ''duplicate''), g_signals)
             else if isInvalid pindex then (Inr (VSTR ''duplicate-invalid''), g_signals)
             else processBlock_validate GetHash performBlockOperation g_signals block True
         | None \<Rightarrow> processBlock_validate GetHash performBlockOperation g_signals block False))"

text \<open>
  For stating the theorems: what a fresh catcher for the block's hash holds after the
  notifications of one engine call, the registry after that call when the catcher of
  the call has come and gone, and the registry after that call when the catcher of the
  call was registered and never unregistered.
\<close>

definition catch_during ::
  "(CBlock \<Rightarrow> uint256) \<Rightarrow> block_operation \<Rightarrow> CBlock \<Rightarrow> submitblock_StateCatcher" where
  "catch_during GetHash performBlockOperation block =
     foldl (BlockChecked GetHash) (new_StateCatcher (GetHash block))
       (snd (performBlockOperation block))"

definition after_validation ::
  "(CBlock \<Rightarrow> uint256) \<Rightarrow> block_operation \<Rightarrow> CBlock \<Rightarrow> signals \<Rightarrow> signals" where
  "after_validation GetHash performBlockOperation block s =
     \<lparr>sig_interfaces =
        map (\<lambda>e. (fst e, foldl (BlockChecked GetHash) (snd e) (snd (performBlockOperation block))))
          (sig_interfaces s),
      sig_log = sig_log s @ [Registered (stack_address s), EngineCalled,
                              Unregistered (stack_address s)]\<rparr>"

definition left_attached ::
  "(CBlock \<Rightarrow> uint256) \<Rightarrow> block_operation \<Rightarrow> CBlock \<Rightarrow> signals \<Rightarrow> signals" where
  "left_attached GetHash performBlockOperation block s =
     \<lparr>sig_interfaces =
        map (\<lambda>e. (fst e, foldl (BlockChecked GetHash) (snd e) (snd (performBlockOperation block))))
          (sig_interfaces s)
        @ [(stack_address s, catch_during GetHash performBlockOperation block)],
      sig_log = sig_log s @ [Registered (stack_address s), EngineCalled]\<rparr>"

section \<open>Hex and decimal strings\<close>

text \<open>
  \<^verbatim>\<open>uint256::GetHex\<close>, \<^verbatim>\<open>uint256::SetHex\<close>, \<^verbatim>\<open>i64tostr\<close> and \<^verbatim>\<open>atoi64\<close> are
  defined outside the file. They are modelled from the wire format the spec gives for the
  long-poll token: 64 hex characters (the tip hash) immediately followed by a decimal
  mempool-update counter. What the library functions do with leading white space, a plus
  sign or a \<^verbatim>\<open>0x\<close> prefix is not part of the wire format and is left out.
\<close>

definition hex_char :: "nat \<Rightarrow> char" where
  "hex_char d = char_of (if d < 10 then 48 + d else 87 + d)"

definition hex_val :: "char \<Rightarrow> nat option" where
  "hex_val c =
     (let n = (of_char c :: nat) in
      if 48 \<le> n \<and> n \<le> 57 then Some (n - 48)
      else if 97 \<le> n \<and> n \<le> 102 then Some (n - 87)
      else if 65 \<le> n \<and> n \<le> 70 then Some (n - 55)
      else None)"

definition is_hex :: "char \<Rightarrow> bool" where
  "is_hex c = (hex_val c \<noteq> None)"

fun hex_digits :: "nat \<Rightarrow> nat \<Rightarrow> string" where
  "hex_digits 0 n = []"
| "hex_digits (Suc k) n = hex_digits k (n div 16) @ [hex_char (n mod 16)]"

text \<open>
  Modelled from the spec: \<^verbatim>\<open>uint256::GetHex\<close> (outside the file) writes the 256-bit
  value as 64 lower-case hex characters, most significant digit first.
\<close>

definition GetHex :: "uint256 \<Rightarrow> string" where
  "GetHex h = hex_digits 64 (unat h)"

definition parse_hex :: "string \<Rightarrow> nat" where
  "parse_hex s = foldl (\<lambda>a c. 16 * a + the (hex_val c)) 0 (takeWhile is_hex s)"

text \<open>
  Modelled from the spec: \<^verbatim>\<open>uint256::SetHex\<close> (outside the file) reads the leading hex
  characters of a string as a 256-bit value.
\<close>

definition SetHex :: "string \<Rightarrow> uint256" where
  "SetHex s = word_of_nat (parse_hex s)"

definition digit_char :: "nat \<Rightarrow> char" where
  "digit_char d = char_of (48 + d)"

definition is_digit :: "char \<Rightarrow> bool" where
  "is_digit c = (48 \<le> (of_char c :: nat) \<and> (of_char c :: nat) \<le> 57)"

definition digit_val :: "char \<Rightarrow> nat" where
  "digit_val c = of_char c - 48"

function dec_digits :: "nat \<Rightarrow> string" where
  "dec_digits n = (if n < 10 then [digit_char n] else dec_digits (n div 10) @ [digit_char (n mod 10)])"
  by pat_completeness auto
termination
  by (relation "measure (\<lambda>n. n)") auto

declare dec_digits.simps [simp del]

text \<open>
  Modelled from the spec: \<^verbatim>\<open>i64tostr\<close> (outside the file) writes a 64-bit integer in
  decimal, with a minus sign when it is negative.
\<close>

definition i64tostr :: "int \<Rightarrow> string" where
  "i64tostr i = (if i < 0 then CHR ''-'' # dec_digits (nat (- i)) else dec_digits (nat i))"

definition parse_dec :: "string \<Rightarrow> nat" where
  "parse_dec s = foldl (\<lambda>a c. 10 * a + digit_val c) 0 (takeWhile is_digit s)"

text \<open>
  Modelled from the spec: \<^verbatim>\<open>atoi64\<close> (outside the file) reads an optional minus sign
  and the leading decimal digits of a string, saturating at the bounds of a signed 64-bit
  integer.
\<close>

definition atoi64 :: "string \<Rightarrow> int" where
  "atoi64 s =
     (case s of
        [] \<Rightarrow> 0
      | c # r \<Rightarrow>
          if c = CHR ''-'' then max (- (2 ^ 63)) (- int (parse_dec r))
          else min (2 ^ 63 - 1) (int (parse_dec s)))"

section \<open>Coinbase construction: IncrementExtraNonce\<close>

text \<open>
  The script serialisers, the coinbase flags, the size bound and the merkle root function
  are defined outside the file; they are the fields of \<open>coinbase_env\<close>.
  \<open>push_int64\<close> is \<^verbatim>\<open>CScript() << nHeight\<close>, \<open>push_CScriptNum\<close> is
  \<^verbatim>\<open><< CScriptNum(nExtraNonce)\<close>.
\<close>

record coinbase_env =
  push_int64 :: "int \<Rightarrow> byte list"
  push_CScriptNum :: "int \<Rightarrow> byte list"
  COINBASE_FLAGS :: "byte list"
  MAX_COINBASE_SCRIPTSIG_SIZE :: nat
  BlockMerkleRoot :: "CTransaction list \<Rightarrow> uint256"

text \<open>
  The function-local static \<^verbatim>\<open>hashPrevBlock\<close> is the argument \<open>static_hashPrevBlock\<close>
  and the first component of the result; the counter passed by reference is the argument
  \<open>nExtraNonce\<close> (an \<^verbatim>\<open>unsigned int\<close>, so \<open>+ 1\<close> wraps) and the last component. A
  null \<open>pindexPrev\<close>, an empty \<open>vtx\<close> and an empty \<open>vin\<close> are undefined behaviour in the
  source; the failed \<^verbatim>\<open>assert\<close> aborts.
\<close>

definition IncrementExtraNonce ::
  "coinbase_env \<Rightarrow> uint256 \<Rightarrow> CBlock \<Rightarrow> CBlockIndex option \<Rightarrow> 32 word
     \<Rightarrow> failure + (uint256 \<times> CBlock \<times> 32 word)" where
  "IncrementExtraNonce E static_hashPrevBlock pblock pindexPrev nExtraNonce =
     (let nExtraNonce1 =
            (if static_hashPrevBlock \<noteq> hashPrevBlock pblock then 0 else nExtraNonce) + 1
      in case pindexPrev of
           None \<Rightarrow> Inl UndefinedBehaviour
         | Some prev \<Rightarrow>
            (let nHeight = (word_of_int (GetHeight prev + 1) :: 32 word) in
             case vtx pblock of
               [] \<Rightarrow> Inl UndefinedBehaviour
             | tx0 # txs \<Rightarrow>
                (case vin tx0 of
                   [] \<Rightarrow> Inl UndefinedBehaviour
                 | in0 # ins \<Rightarrow>
                    (let sig = push_int64 E (uint nHeight) @ push_CScriptNum E (uint nExtraNonce1)
                                 @ COINBASE_FLAGS E
                     in if \<not> length sig \<le> MAX_COINBASE_SCRIPTSIG_SIZE E then Inl AssertionFailure
                        else
                          (let vtx1 = tx0\<lparr>vin := in0\<lparr>scriptSig := sig\<rparr> # ins\<rparr> # txs
                           in Inr (hashPrevBlock pblock,
                                   pblock\<lparr>hashMerkleRoot := BlockMerkleRoot E vtx1, vtx := vtx1\<rparr>,
                                   nExtraNonce1))))))"

definition extra_nonce_after :: "failure + (uint256 \<times> CBlock \<times> 32 word) \<Rightarrow> 32 word option" where
  "extra_nonce_after r = (case r of Inl f \<Rightarrow> None | Inr (hp, b, n) \<Rightarrow> Some n)"

section \<open>Local mining: generateBlocks\<close>











section \<open>Network hash rate: GetNetworkHashPS\<close>

text \<open>
  \<^verbatim>\<open>chainActive\<close> is the vector of the active chain's index entries, indexed by height.
\<close>

definition CChain_Tip :: "CBlockIndex list \<Rightarrow> CBlockIndex option" where
  "CChain_Tip vChain = (if vChain = [] then None else Some (last vChain))"

definition CChain_Height :: "CBlockIndex list \<Rightarrow> int" where
  "CChain_Height vChain = int (length vChain) - 1"

definition CChain_at :: "CBlockIndex list \<Rightarrow> int \<Rightarrow> CBlockIndex option" where
  "CChain_at vChain h =
     (if h < 0 \<or> h \<ge> int (length vChain) then None else Some (vChain ! nat h))"

text \<open>
  The loop that walks \<open>lookup\<close> links back from the anchor. \<^verbatim>\<open>GetPrev()\<close> of an entry
  without a predecessor is the null pointer, and reading its time is undefined behaviour.
\<close>

fun walkBack :: "nat \<Rightarrow> CBlockIndex \<Rightarrow> int \<Rightarrow> int \<Rightarrow> failure + (CBlockIndex \<times> int \<times> int)" where
  "walkBack 0 pb0 minTime maxTime = Inr (pb0, minTime, maxTime)"
| "walkBack (Suc i) pb0 minTime maxTime =
     (case GetPrev pb0 of
        None \<Rightarrow> Inl UndefinedBehaviour
      | Some prev \<Rightarrow>
          walkBack i prev (min (GetBlockTime prev) minTime) (max (GetBlockTime prev) maxTime))"

text \<open>
  \<open>interval\<close> is \<^verbatim>\<open>Params().GetConsensus().DifficultyAdjustmentInterval()\<close>. The C++
  \<^verbatim>\<open>%\<close> truncates towards zero (\<open>smod\<close>) and is undefined for a zero divisor.
\<close>

definition GetNetworkHashPS ::
  "CBlockIndex list \<Rightarrow> int \<Rightarrow> int \<Rightarrow> int \<Rightarrow> failure + UniValue" where
  "GetNetworkHashPS chainActive interval lookup height =
     (let pb = (if height \<ge> 0 \<and> height < CChain_Height chainActive
                then CChain_at chainActive height else CChain_Tip chainActive)
      in case pb of
           None \<Rightarrow> Inr (VNUM 0)
         | Some pb \<Rightarrow>
             if GetHeight pb = 0 then Inr (VNUM 0)
             else if lookup \<le> 0 \<and> interval = 0 then Inl UndefinedBehaviour
             else
               (let lookup1 = (if lookup \<le> 0 then GetHeight pb smod interval + 1 else lookup);
                    lookup2 = (if lookup1 > GetHeight pb then GetHeight pb else lookup1)
                in case walkBack (nat lookup2) pb (GetBlockTime pb) (GetBlockTime pb) of
                     Inl f \<Rightarrow> Inl f
                   | Inr (pb0, minTime, maxTime) \<Rightarrow>
                       if minTime = maxTime then Inr (VNUM 0)
                       else Inr (VQUOT (GetChainWork pb - GetChainWork pb0) (maxTime - minTime))))"

text \<open>
  The estimator in the spec's words: the anchor, the effective lookback, the window of
  the anchor and the blocks reached by walking back, and the quotient of the chain-work
  difference by the spread of the window's timestamps.
\<close>

definition spec_anchor :: "CBlockIndex list \<Rightarrow> int \<Rightarrow> CBlockIndex option" where
  "spec_anchor chain at_height =
     (if 0 \<le> at_height \<and> at_height < int (length chain) - 1
      then Some (chain ! nat at_height)
      else if chain = [] then None else Some (last chain))"

definition spec_lookback :: "int \<Rightarrow> int \<Rightarrow> int \<Rightarrow> nat" where
  "spec_lookback interval anchor_height lookback =
     nat (min anchor_height
            (if lookback \<le> 0 then anchor_height mod interval + 1 else lookback))"

fun window :: "nat \<Rightarrow> CBlockIndex \<Rightarrow> CBlockIndex list" where
  "window 0 pb = [pb]"
| "window (Suc n) pb = pb # (case GetPrev pb of None \<Rightarrow> [] | Some prev \<Rightarrow> window n prev)"

definition spec_estimate :: "int \<Rightarrow> int \<Rightarrow> CBlockIndex \<Rightarrow> UniValue" where
  "spec_estimate interval lookback anchor =
     (let win = window (spec_lookback interval (GetHeight anchor) lookback) anchor;
          min_time = Min (set (map GetBlockTime win));
          max_time = Max (set (map GetBlockTime win))
      in if min_time = max_time then VNUM 0
         else VQUOT (GetChainWork anchor - GetChainWork (last win)) (max_time - min_time))"

section \<open>getblocktemplate: long polling\<close>

text \<open>
  What a long-polling caller observes of the node at one instant: the hash of the chain
  tip (the tip is not null once the initial-download check has passed), the mempool's
  transactions-updated counter and the flag \<^verbatim>\<open>IsRPCRunning()\<close>.
\<close>

record node_view =
  view_tip :: uint256
  view_txUpdated :: "32 word"
  view_rpcRunning :: bool

text \<open>The \<^verbatim>\<open>longpollid\<close> field of the result (line 752).\<close>

definition longpollid :: "uint256 \<Rightarrow> 32 word \<Rightarrow> string" where
  "longpollid tipHash nTransactionsUpdatedLast =
     GetHex tipHash @ i64tostr (uint nTransactionsUpdatedLast)"

text \<open>
  Reading a string \<^verbatim>\<open>longpollid\<close> (lines 604 to 607): \<^verbatim>\<open>substr(64)\<close> throws
  \<^verbatim>\<open>std::out_of_range\<close> when the string has fewer than 64 characters; the result of
  \<^verbatim>\<open>atoi64\<close> is stored in an \<^verbatim>\<open>unsigned int\<close>.
\<close>

definition parse_longpollid :: "string \<Rightarrow> failure + (uint256 \<times> 32 word)" where
  "parse_longpollid lpstr =
     (if length lpstr < 64 then Inl OutOfRange
      else Inr (SetHex (take 64 lpstr), word_of_int (atoi64 (drop 64 lpstr))))"

text \<open>
  The baseline of the wait for a \<^verbatim>\<open>longpollid\<close> that is not null (lines 602 to 613).
  \<open>nTransactionsUpdatedLast\<close> is the function-local static of that name.
\<close>

definition longpoll_baseline ::
  "UniValue \<Rightarrow> uint256 \<Rightarrow> 32 word \<Rightarrow> failure + (uint256 \<times> 32 word)" where
  "longpoll_baseline lpval tipHash nTransactionsUpdatedLast =
     (case lpval of
        VSTR lpstr \<Rightarrow> parse_longpollid lpstr
      | _ \<Rightarrow> Inr (tipHash, nTransactionsUpdatedLast))"

text \<open>
  The wait loop (lines 618 to 633). Scheduling and real time are replaced by the list of
  wakes the caller experiences: each wake says whether \<^verbatim>\<open>timed_wait\<close> returned because
  of a notification or because the deadline \<open>checktxtime\<close> passed, and what the caller
  observes of the node from that wake until it sleeps again. The result is the outcome
  (\<open>None\<close> while the caller is still asleep after the last wake of the list) and the
  deadlines passed to \<^verbatim>\<open>timed_wait\<close>, in order.
\<close>

datatype wake = Notified | TimedOut

definition after_wait :: "node_view \<Rightarrow> (failure + unit) option" where
  "after_wait v =
     Some (if \<not> view_rpcRunning v then Inl (JSONRPCError RPC_CLIENT_NOT_CONNECTED ''Shutting down'')
           else Inr ())"

fun longpoll_wait ::
  "uint256 \<Rightarrow> 32 word \<Rightarrow> int \<Rightarrow> node_view \<Rightarrow> (wake \<times> node_view) list
     \<Rightarrow> (failure + unit) option \<times> int list" where
  "longpoll_wait hashWatchedChain nTransactionsUpdatedLastLP checktxtime v [] =
     (if view_tip v = hashWatchedChain \<and> view_rpcRunning v then (None, [checktxtime])
      else (after_wait v, []))"
| "longpoll_wait hashWatchedChain nTransactionsUpdatedLastLP checktxtime v ((wk, v') # rest) =
     (if view_tip v = hashWatchedChain \<and> view_rpcRunning v then
        (if wk = TimedOut then
           (if view_txUpdated v' \<noteq> nTransactionsUpdatedLastLP then (after_wait v', [checktxtime])
            else
              (let r = longpoll_wait hashWatchedChain nTransactionsUpdatedLastLP
                         (checktxtime + 10) v' rest
               in (fst r, checktxtime # snd r)))
         else
           (let r = longpoll_wait hashWatchedChain nTransactionsUpdatedLastLP checktxtime v' rest
            in (fst r, checktxtime # snd r)))
      else (after_wait v, []))"

definition getblocktemplate_longpoll ::
  "UniValue \<Rightarrow> 32 word \<Rightarrow> int \<Rightarrow> node_view \<Rightarrow> (wake \<times> node_view) list
     \<Rightarrow> (failure + unit) option \<times> int list" where
  "getblocktemplate_longpoll lpval nTransactionsUpdatedLast now v wakes =
     (if lpval = NullUniValue then (Some (Inr ()), [])
      else
        (case longpoll_baseline lpval (view_tip v) nTransactionsUpdatedLast of
           Inl f \<Rightarrow> (Some (Inl f), [])
         | Inr (hashWatchedChain, nTransactionsUpdatedLastLP) \<Rightarrow>
             longpoll_wait hashWatchedChain nTransactionsUpdatedLastLP (now + 60) v wakes))"

text \<open>
  A wake is quiet for a baseline when it gives the caller no reason to stop waiting: the
  tip is the baseline tip, the service runs, and the wake is a notification or finds the
  mempool counter equal to the baseline counter. \<open>timeouts\<close> counts the timeouts of a list
  of wakes.
\<close>

definition quiet :: "uint256 \<Rightarrow> 32 word \<Rightarrow> wake \<times> node_view \<Rightarrow> bool" where
  "quiet h n e =
     (view_tip (snd e) = h \<and> view_rpcRunning (snd e)
      \<and> (fst e = Notified \<or> view_txUpdated (snd e) = n))"

definition timeouts :: "(wake \<times> node_view) list \<Rightarrow> nat" where
  "timeouts ws = length (filter (\<lambda>e. fst e = TimedOut) ws)"

definition last_view :: "node_view \<Rightarrow> (wake \<times> node_view) list \<Rightarrow> node_view" where
  "last_view v ws = (if ws = [] then v else snd (last ws))"

section \<open>getblocktemplate: the cached template\<close>








subsection \<open>Sample data\<close>

definition sample_coinbase :: CTransaction where
  "sample_coinbase = \<lparr>vin = [\<lparr>scriptSig = []\<rparr>], IsCoinBase = True, HasP2SHOutput = False\<rparr>"

definition sample_block :: CBlock where
  "sample_block =
     \<lparr>hashPrevBlock = 7, hashMerkleRoot = 0, nBits = 0x207fffff, nNonce = 0,
      vtx = [sample_coinbase]\<rparr>"

definition sample_GetHash :: "CBlock \<Rightarrow> uint256" where
  "sample_GetHash b = hashPrevBlock b + ucast (nNonce b)"

definition header_only_index :: CBlockIndex where
  "header_only_index = CBlockIndex 7 1 1000 2 False False None"

definition engine_accepts_and_reports :: "CValidationState \<Rightarrow> block_operation" where
  "engine_accepts_and_reports st b = (Inr True, [(b, st)])"

definition engine_defers :: block_operation where
  "engine_defers b = (Inr True, [])"

text \<open>An engine that fails with an exception before it notifies anyone.\<close>

definition engine_throws :: block_operation where
  "engine_throws b = (Inl (RuntimeError ''disk read failed''), [])"

text \<open>A registry in which the catcher of another call, at address 5, is attached.\<close>

definition sample_signals :: signals where
  "sample_signals = \<lparr>sig_interfaces = [(5, new_StateCatcher 9)], sig_log = []\<rparr>"

definition sample_coinbase_env :: coinbase_env where
  "sample_coinbase_env =
     \<lparr>push_int64 = (\<lambda>n. [3, word_of_int n, word_of_int (n div 256), word_of_int (n div 65536)]),
      push_CScriptNum = (\<lambda>n. [4, word_of_int n, word_of_int (n div 256),
                               word_of_int (n div 65536), word_of_int (n div 16777216)]),
      COINBASE_FLAGS = [0x2f, 0x53, 0x56, 0x2f],
      MAX_COINBASE_SCRIPTSIG_SIZE = 100,
      BlockMerkleRoot = (\<lambda>txs. of_nat (length txs))\<rparr>"



text \<open>A chain of three blocks, sixty time units apart.\<close>

definition sample_genesis :: CBlockIndex where
  "sample_genesis = CBlockIndex 10 0 100 1 True False None"

definition sample_index1 :: CBlockIndex where
  "sample_index1 = CBlockIndex 11 1 160 3 True False (Some sample_genesis)"

definition sample_index2 :: CBlockIndex where
  "sample_index2 = CBlockIndex 12 2 220 7 True False (Some sample_index1)"

definition sample_chain :: "CBlockIndex list" where
  "sample_chain = [sample_genesis, sample_index1, sample_index2]"

definition sample_view :: node_view where
  "sample_view = \<lparr>view_tip = 7, view_txUpdated = 7, view_rpcRunning = True\<rparr>"



section \<open>Theorems\<close>

subsection \<open>Block submission\<close>

lemma foldr_max_upper: "a \<in> set xs \<Longrightarrow> a \<le> foldr max xs (0::nat)"
  by (induction xs) (auto simp: max_def)

lemma stack_address_fresh: "\<forall>e \<in> set (sig_interfaces s). fst e \<noteq> stack_address s"
proof
  fix e
  assume "e \<in> set (sig_interfaces s)"
  then have "fst e \<in> set (map fst (sig_interfaces s))" by simp
  then have "fst e \<le> foldr max (map fst (sig_interfaces s)) 0" by (rule foldr_max_upper)
  then show "fst e \<noteq> stack_address s" by (simp add: stack_address_def)
qed

lemma map_of_others:
  "\<forall>e \<in> set regs. fst e \<noteq> a \<Longrightarrow> map_of (map (\<lambda>e. (fst e, f (snd e))) regs @ [(a, x)]) a = Some x"
  by (induction regs) auto

lemma filter_others:
  "\<forall>e \<in> set regs. fst e \<noteq> a \<Longrightarrow>
     filter (\<lambda>e. fst e \<noteq> a) (map (\<lambda>e. (fst e, f (snd e))) regs @ [(a, x)])
       = map (\<lambda>e. (fst e, f (snd e))) regs"
  by (induction regs) auto

lemma processBlock_validate_run:
  "processBlock_validate GetHash op s block present =
     (case fst (op block) of
        Inl e \<Rightarrow> (Inl e, left_attached GetHash op block s)
      | Inr fAccepted \<Rightarrow>
         (let sc = catch_during GetHash op block in
          if present then
            (if fAccepted \<and> \<not> sc_found sc then Inr (VSTR ''duplicate-inconclusive'')
             else Inr (VSTR ''duplicate''))
          else if \<not> sc_found sc then Inr (VSTR ''inconclusive'')
          else BIP22ValidationResult (sc_state sc),
          after_validation GetHash op block s))"
proof -
  let ?a = "stack_address s"
  let ?sc0 = "new_StateCatcher (GetHash block)"
  let ?f = "\<lambda>sc. foldl (BlockChecked GetHash) sc (snd (op block))"
  let ?s2 = "snd (call_operation GetHash op block (RegisterValidationInterface ?a ?sc0 s))"
  note fr = stack_address_fresh[of s]
  have regs2: "sig_interfaces ?s2 = map (\<lambda>e. (fst e, ?f (snd e))) (sig_interfaces s) @ [(?a, ?f ?sc0)]"
    by (simp add: call_operation_def RegisterValidationInterface_def)
  have log2: "sig_log ?s2 = sig_log s @ [Registered ?a, EngineCalled]"
    by (simp add: call_operation_def RegisterValidationInterface_def)
  have c: "catcher_at ?a ?sc0 ?s2 = catch_during GetHash op block"
    unfolding catcher_at_def regs2 map_of_others[OF fr, where f = ?f]
    by (simp add: catch_during_def)
  have u: "UnregisterValidationInterface ?a ?s2 = after_validation GetHash op block s"
    unfolding UnregisterValidationInterface_def regs2 log2 filter_others[OF fr, where f = ?f]
    by (simp add: after_validation_def)
  have l: "?s2 = left_attached GetHash op block s"
    using regs2 log2 by (simp add: left_attached_def catch_during_def)
  have f: "fst (call_operation GetHash op block (RegisterValidationInterface ?a ?sc0 s)) = fst (op block)"
    by (simp add: call_operation_def)
  show ?thesis
  proof (cases "fst (op block)")
    case (Inl e)
    then show ?thesis
      by (simp add: processBlock_validate_def Let_def case_prod_beta f l)
  next
    case (Inr fAccepted)
    then show ?thesis
      by (simp add: processBlock_validate_def Let_def case_prod_beta c u f)
  qed
qed



text \<open>
  C1, as stated, fails: for a block whose index entry is neither script-validated nor
  invalid, an engine that reports success while the catcher fires makes the call return
  \<^verbatim>\<open>"duplicate"\<close>, not \<^verbatim>\<open>"duplicate-inconclusive"\<close>.
\<close>

theorem processBlock_present_accepted_found_counterexample:
  "fst (engine_accepts_and_reports \<lparr>mode = MODE_VALID, strRejectReason = []\<rparr> sample_block)
     = Inr True
   \<and> sc_found (catch_during sample_GetHash
         (engine_accepts_and_reports \<lparr>mode = MODE_VALID, strRejectReason = []\<rparr>) sample_block)
   \<and> fst (processBlock sample_GetHash (\<lambda>h. Some header_only_index)
         (engine_accepts_and_reports \<lparr>mode = MODE_VALID, strRejectReason = []\<rparr>)
         sample_signals sample_block)
       = Inr (VSTR ''duplicate'')
   \<and> fst (processBlock sample_GetHash (\<lambda>h. Some header_only_index)
         (engine_accepts_and_reports \<lparr>mode = MODE_VALID, strRejectReason = []\<rparr>)
         sample_signals sample_block)
       \<noteq> Inr (VSTR ''duplicate-inconclusive'')"
  by (simp add: processBlock_def processBlock_validate_def Let_def call_operation_def
      catcher_at_def RegisterValidationInterface_def UnregisterValidationInterface_def
      stack_address_def sample_signals_def sample_block_def sample_coinbase_def
      sample_GetHash_def catch_during_def BlockChecked_def new_StateCatcher_def
      engine_accepts_and_reports_def header_only_index_def)

text \<open>
  C1, amended. For a block that passes the coinbase checks and whose hash is in the block
  index: a script-validated entry gives \<^verbatim>\<open>"duplicate"\<close> and otherwise an invalid entry
  gives \<^verbatim>\<open>"duplicate-invalid"\<close>, both with the registry and its log untouched (the
  engine is not called); otherwise a catcher is registered and the engine is called once,
  and when that call has returned the catcher is unregistered and \<open>processBlock\<close> returns
  \<^verbatim>\<open>"duplicate-inconclusive"\<close> exactly when the operation reported success and the
  catcher did not fire, and \<^verbatim>\<open>"duplicate"\<close> in every other case, also when the
  operation reported success and the catcher fired. (An exception that leaves the engine
  call reaches the caller as it is.)
\<close>

theorem processBlock_present_outcome:
  assumes "vtx block \<noteq> []" and "IsCoinBase (hd (vtx block))"
    and "\<not> HasP2SHOutput (hd (vtx block))"
    and "mapBlockIndex (GetHash block) = Some pindex"
  shows "if IsValid_SCRIPTS pindex then
       processBlock GetHash mapBlockIndex op s block = (Inr (VSTR ''duplicate''), s)
     else if isInvalid pindex then
       processBlock GetHash mapBlockIndex op s block = (Inr (VSTR ''duplicate-invalid''), s)
     else
       (case fst (op block) of
          Inr fAccepted \<Rightarrow>
            processBlock GetHash mapBlockIndex op s block =
              (if fAccepted \<and> \<not> sc_found (catch_during GetHash op block)
               then Inr (VSTR ''duplicate-inconclusive'')
               else Inr (VSTR ''duplicate''),
               after_validation GetHash op block s)
        | Inl e \<Rightarrow> fst (processBlock GetHash mapBlockIndex op s block) = Inl e)"
  using assms
  by (simp add: processBlock_def processBlock_validate_run Let_def split: sum.split)

theorem processBlock_present_outcome_witness:
  "vtx sample_block \<noteq> [] \<and> IsCoinBase (hd (vtx sample_block))
   \<and> \<not> HasP2SHOutput (hd (vtx sample_block))
   \<and> processBlock sample_GetHash (\<lambda>h. Some header_only_index) engine_defers sample_signals
         sample_block
       = (Inr (VSTR ''duplicate-inconclusive''),
          \<lparr>sig_interfaces = [(5, new_StateCatcher 9)],
           sig_log = [Registered 6, EngineCalled, Unregistered 6]\<rparr>)
   \<and> processBlock sample_GetHash (\<lambda>h. Some (CBlockIndex 7 1 1000 2 True False None))
         engine_defers sample_signals sample_block
       = (Inr (VSTR ''duplicate''), sample_signals)"
  using processBlock_present_outcome [of sample_block "\<lambda>h. Some header_only_index"
      sample_GetHash header_only_index engine_defers sample_signals]
    processBlock_present_outcome [of sample_block
      "\<lambda>h. Some (CBlockIndex 7 1 1000 2 True False None)"
      sample_GetHash "CBlockIndex 7 1 1000 2 True False None" engine_defers sample_signals]
  by (simp add: sample_block_def sample_coinbase_def sample_GetHash_def catch_during_def
      new_StateCatcher_def engine_defers_def header_only_index_def after_validation_def
      stack_address_def sample_signals_def)

text \<open>
  C4 does not hold of the code. \<open>processBlock\<close> registers its catcher, calls the engine and
  unregisters the catcher by three statements in a row (lines 840 to 842), with no handler
  and no scope guard around the engine call. When the engine call returns, the three are
  paired (\<open>processBlock_validate_run\<close>). When an exception leaves the engine call, the
  unregistration is skipped: here the call ends with the engine's exception, the log holds
  the registration and the engine call and no unregistration, and the catcher of the call,
  at address 6, is still attached next to the one that was attached before.
\<close>

theorem processBlock_throwing_operation_leaves_catcher:
  "processBlock sample_GetHash (\<lambda>h. None) engine_throws sample_signals sample_block
     = (Inl (RuntimeError ''disk read failed''),
        \<lparr>sig_interfaces = [(5, new_StateCatcher 9), (6, new_StateCatcher 7)],
         sig_log = [Registered 6, EngineCalled]\<rparr>)
   \<and> stack_address sample_signals = 6
   \<and> 6 \<in> fst ` set (sig_interfaces (snd (processBlock sample_GetHash (\<lambda>h. None)
         engine_throws sample_signals sample_block)))"
  by (simp add: processBlock_def processBlock_validate_def Let_def call_operation_def
      RegisterValidationInterface_def stack_address_def sample_signals_def sample_block_def
      sample_coinbase_def sample_GetHash_def new_StateCatcher_def engine_throws_def)

subsection \<open>Coinbase construction and the nonce search\<close>

lemma IncrementExtraNonce_Inr:
  assumes "IncrementExtraNonce E hp pblock pindexPrev n = Inr (hp', pblock', n')"
  shows "hp' = hashPrevBlock pblock"
    and "n' = (if hp \<noteq> hashPrevBlock pblock then 1 else n + 1)"
    and "nNonce pblock' = nNonce pblock"
    and "nBits pblock' = nBits pblock"
    and "hashPrevBlock pblock' = hashPrevBlock pblock"
    and "hashMerkleRoot pblock' = BlockMerkleRoot E (vtx pblock')"
    and "vtx pblock' \<noteq> []"
    and "vin (hd (vtx pblock')) \<noteq> []"
    and "\<exists>prev. pindexPrev = Some prev \<and>
           scriptSig (hd (vin (hd (vtx pblock')))) =
             push_int64 E (uint (word_of_int (GetHeight prev + 1) :: 32 word))
             @ push_CScriptNum E (uint n') @ COINBASE_FLAGS E"
    and "length (scriptSig (hd (vin (hd (vtx pblock'))))) \<le> MAX_COINBASE_SCRIPTSIG_SIZE E"
    and "tl (vtx pblock') = tl (vtx pblock)"
  using assms
  by (auto simp: IncrementExtraNonce_def Let_def split: option.splits list.splits if_splits)






















text \<open>
  C5, as stated, fails: the counter is an \<^verbatim>\<open>unsigned int\<close>. With the stored hash equal
  to the block's previous-block hash and the counter at \<open>2^32 - 1\<close>, the call leaves the
  counter at 0: it does not strictly increase.
\<close>

theorem IncrementExtraNonce_wraps_counterexample:
  "extra_nonce_after
     (IncrementExtraNonce sample_coinbase_env (hashPrevBlock sample_block) sample_block
        (Some header_only_index) 0xFFFFFFFF) = Some 0
   \<and> \<not> (0xFFFFFFFF :: 32 word) < 0"
  by (simp add: IncrementExtraNonce_def extra_nonce_after_def sample_block_def
      sample_coinbase_def sample_coinbase_env_def header_only_index_def Let_def)

text \<open>
  C5, amended. Whenever a call returns: the counter is 1 if the block's previous-block hash
  differs from the stored one, and otherwise the old counter plus 1 modulo \<open>2^32\<close> (a
  strict increase by exactly 1 unless the old counter was \<open>2^32 - 1\<close>, which wraps to 0);
  the stored hash becomes the block's previous-block hash, so the next call compares
  against this block; the coinbase scriptSig is height, extra nonce and flags, and is not
  longer than the maximum (the assertion aborts the call otherwise); the merkle root is
  the merkle root of the updated transaction list, whose other transactions are unchanged.
\<close>

theorem IncrementExtraNonce_counter_and_script:
  assumes "IncrementExtraNonce E stored pblock pindexPrev n = Inr (stored', pblock', n')"
  shows "(stored \<noteq> hashPrevBlock pblock \<longrightarrow> n' = 1)
     \<and> (stored = hashPrevBlock pblock \<longrightarrow>
          n' = n + 1 \<and> (n \<noteq> 0xFFFFFFFF \<longrightarrow> unat n' = unat n + 1) \<and> (n = 0xFFFFFFFF \<longrightarrow> n' = 0))
     \<and> stored' = hashPrevBlock pblock
     \<and> (\<exists>prev. pindexPrev = Some prev \<and>
           scriptSig (hd (vin (hd (vtx pblock')))) =
             push_int64 E (uint (word_of_int (GetHeight prev + 1) :: 32 word))
             @ push_CScriptNum E (uint n') @ COINBASE_FLAGS E)
     \<and> length (scriptSig (hd (vin (hd (vtx pblock'))))) \<le> MAX_COINBASE_SCRIPTSIG_SIZE E
     \<and> hashMerkleRoot pblock' = BlockMerkleRoot E (vtx pblock')
     \<and> tl (vtx pblock') = tl (vtx pblock)"
proof -
  note R = IncrementExtraNonce_Inr[OF assms]
  have inc: "n \<noteq> 0xFFFFFFFF \<Longrightarrow> unat (n + 1) = unat n + 1"
    by unat_arith simp
  show ?thesis using R inc by auto
qed

lemma sample_IncrementExtraNonce:
  "IncrementExtraNonce sample_coinbase_env 7 sample_block (Some header_only_index) 5 =
     Inr (7,
          sample_block\<lparr>hashMerkleRoot := 1,
            vtx := [sample_coinbase\<lparr>vin := [\<lparr>scriptSig = [3, 2, 0, 0, 4, 6, 0, 0, 0, 0x2f, 0x53, 0x56, 0x2f]\<rparr>]\<rparr>]\<rparr>,
          6)"
  by (simp add: IncrementExtraNonce_def sample_block_def sample_coinbase_def
      sample_coinbase_env_def header_only_index_def Let_def)

theorem IncrementExtraNonce_counter_and_script_witness:
  "extra_nonce_after
     (IncrementExtraNonce sample_coinbase_env 7 sample_block (Some header_only_index) 5) = Some 6
   \<and> unat (6 :: 32 word) = unat (5 :: 32 word) + 1
   \<and> length [3, 2, 0, 0, 4, 6, 0, 0, 0, 0x2f, 0x53, 0x56, 0x2f :: byte]
        \<le> MAX_COINBASE_SCRIPTSIG_SIZE sample_coinbase_env"
proof -
  note w = IncrementExtraNonce_counter_and_script [OF sample_IncrementExtraNonce]
  have "extra_nonce_after
     (IncrementExtraNonce sample_coinbase_env 7 sample_block (Some header_only_index) 5) = Some 6"
    unfolding sample_IncrementExtraNonce by (simp add: extra_nonce_after_def)
  moreover have "unat (6 :: 32 word) = unat (5 :: 32 word) + 1" by simp
  moreover from w have "length [3, 2, 0, 0, 4, 6, 0, 0, 0, 0x2f, 0x53, 0x56, 0x2f :: byte]
        \<le> MAX_COINBASE_SCRIPTSIG_SIZE sample_coinbase_env"
    by (simp add: sample_coinbase_env_def)
  ultimately show ?thesis by blast
qed






subsection \<open>Network hash rate\<close>

lemma window_nonempty: "window n pb \<noteq> []"
  by (cases n) simp_all

lemma window_hd: "hd (window n pb) = pb"
  by (cases n) simp_all

lemma walkBack_window:
  "length (window n pb) = Suc n \<Longrightarrow>
     walkBack n pb lo hi =
       Inr (last (window n pb),
            Min (insert lo (GetBlockTime ` set (tl (window n pb)))),
            Max (insert hi (GetBlockTime ` set (tl (window n pb)))))"
proof (induction n arbitrary: pb lo hi)
  case 0
  show ?case by simp
next
  case (Suc n)
  from Suc.prems obtain prev where p: "GetPrev pb = Some prev"
    by (cases "GetPrev pb") auto
  with Suc.prems have len: "length (window n prev) = Suc n" by simp
  have w: "window n prev = prev # tl (window n prev)"
    using window_hd[of n prev] window_nonempty[of n prev] by (metis list.collapse)
  have fin: "finite (GetBlockTime ` set (tl (window n prev)))" by simp
  have "walkBack (Suc n) pb lo hi =
          walkBack n prev (min (GetBlockTime prev) lo) (max (GetBlockTime prev) hi)"
    using p by simp
  also have "\<dots> = Inr (last (window n prev),
            Min (insert (min (GetBlockTime prev) lo) (GetBlockTime ` set (tl (window n prev)))),
            Max (insert (max (GetBlockTime prev) hi) (GetBlockTime ` set (tl (window n prev)))))"
    by (rule Suc.IH[OF len])
  also have "last (window n prev) = last (window (Suc n) pb)"
    using p window_nonempty[of n prev] by simp
  also have "Min (insert (min (GetBlockTime prev) lo) (GetBlockTime ` set (tl (window n prev))))
           = Min (insert lo (GetBlockTime ` set (tl (window (Suc n) pb))))"
  proof -
    have "tl (window (Suc n) pb) = prev # tl (window n prev)" using p w by simp
    then have "insert lo (GetBlockTime ` set (tl (window (Suc n) pb)))
             = insert lo (insert (GetBlockTime prev) (GetBlockTime ` set (tl (window n prev))))"
      by simp
    moreover have "Min (insert lo (insert (GetBlockTime prev) (GetBlockTime ` set (tl (window n prev)))))
       = Min (insert (min (GetBlockTime prev) lo) (GetBlockTime ` set (tl (window n prev))))"
      using fin by (cases "GetBlockTime ` set (tl (window n prev)) = {}")
        (simp_all add: min.commute min.left_commute min.assoc)
    ultimately show ?thesis by simp
  qed
  also have "Max (insert (max (GetBlockTime prev) hi) (GetBlockTime ` set (tl (window n prev))))
           = Max (insert hi (GetBlockTime ` set (tl (window (Suc n) pb))))"
  proof -
    have "tl (window (Suc n) pb) = prev # tl (window n prev)" using p w by simp
    then have "insert hi (GetBlockTime ` set (tl (window (Suc n) pb)))
             = insert hi (insert (GetBlockTime prev) (GetBlockTime ` set (tl (window n prev))))"
      by simp
    moreover have "Max (insert hi (insert (GetBlockTime prev) (GetBlockTime ` set (tl (window n prev)))))
       = Max (insert (max (GetBlockTime prev) hi) (GetBlockTime ` set (tl (window n prev))))"
      using fin by (cases "GetBlockTime ` set (tl (window n prev)) = {}")
        (simp_all add: max.commute max.left_commute max.assoc)
    ultimately show ?thesis by simp
  qed
  finally show ?case .
qed

lemma window_times:
  "insert (GetBlockTime pb) (GetBlockTime ` set (tl (window n pb))) = set (map GetBlockTime (window n pb))"
proof -
  have "window n pb = pb # tl (window n pb)"
    using window_hd[of n pb] window_nonempty[of n pb] by (metis list.collapse)
  then have "set (map GetBlockTime (window n pb)) = set (map GetBlockTime (pb # tl (window n pb)))"
    by simp
  then show ?thesis by simp
qed

lemma code_anchor:
  "(if height \<ge> 0 \<and> height < CChain_Height chain then CChain_at chain height else CChain_Tip chain)
     = spec_anchor chain height"
  by (simp add: CChain_Height_def CChain_at_def CChain_Tip_def spec_anchor_def)

lemma smod_pos: "0 < (h::int) \<Longrightarrow> 0 < d \<Longrightarrow> h smod d = h mod d"
  by (simp add: signed_modulo_int_def)

text \<open>
  C7. With a positive difficulty adjustment interval (or a positive lookback, which does
  not use the interval): the estimator returns 0 when there
  is no anchor or the anchor has height 0; otherwise, when the anchor has at least as many
  predecessors as the effective lookback (\<open>(height mod interval) + 1\<close> when
  \<open>lookback \<le> 0\<close>, clamped to the anchor's height), it returns what the spec describes:
  0 when the least and the greatest timestamp of the window are equal, and otherwise the
  quotient of \<open>anchor_chainwork - ancestor_chainwork\<close> by \<open>max_time - min_time\<close>.
\<close>

theorem GetNetworkHashPS_estimate:
  assumes "0 < interval \<or> 0 < lookback"
  shows "(spec_anchor chain at_height = None \<longrightarrow>
            GetNetworkHashPS chain interval lookback at_height = Inr (VNUM 0))
     \<and> (\<forall>anchor. spec_anchor chain at_height = Some anchor \<longrightarrow>
           (GetHeight anchor = 0 \<longrightarrow>
              GetNetworkHashPS chain interval lookback at_height = Inr (VNUM 0))
         \<and> (0 < GetHeight anchor
              \<and> length (window (spec_lookback interval (GetHeight anchor) lookback) anchor)
                  = Suc (spec_lookback interval (GetHeight anchor) lookback)
              \<longrightarrow> GetNetworkHashPS chain interval lookback at_height
                    = Inr (spec_estimate interval lookback anchor)))"
proof (intro conjI allI impI)
  assume "spec_anchor chain at_height = None"
  then show "GetNetworkHashPS chain interval lookback at_height = Inr (VNUM 0)"
    by (simp add: GetNetworkHashPS_def code_anchor)
next
  fix anchor
  assume "spec_anchor chain at_height = Some anchor" and "GetHeight anchor = 0"
  then show "GetNetworkHashPS chain interval lookback at_height = Inr (VNUM 0)"
    by (simp add: GetNetworkHashPS_def code_anchor)
next
  fix anchor
  let ?h = "GetHeight anchor"
  let ?n = "spec_lookback interval ?h lookback"
  let ?t = "GetBlockTime anchor"
  assume a: "spec_anchor chain at_height = Some anchor"
    and b: "0 < ?h \<and> length (window ?n anchor) = Suc ?n"
  let ?l1 = "if lookback \<le> 0 then ?h smod interval + 1 else lookback"
  from b have hpos: "0 < ?h" by (rule conjunct1)
  have n: "nat (if ?l1 > ?h then ?h else ?l1) = ?n"
    unfolding spec_lookback_def using hpos assms by (auto simp: smod_pos min_def)
  have wb: "walkBack ?n anchor ?t ?t =
       Inr (last (window ?n anchor), Min (set (map GetBlockTime (window ?n anchor))),
            Max (set (map GetBlockTime (window ?n anchor))))"
    using walkBack_window[of ?n anchor ?t ?t] b by (simp only: window_times)
  have "GetNetworkHashPS chain interval lookback at_height =
          (case walkBack ?n anchor ?t ?t of
             Inl f \<Rightarrow> Inl f
           | Inr (pb0, minTime, maxTime) \<Rightarrow>
               if minTime = maxTime then Inr (VNUM 0)
               else Inr (VQUOT (GetChainWork anchor - GetChainWork pb0) (maxTime - minTime)))"
  proof -
    from assms have ok: "\<not> (lookback \<le> 0 \<and> interval = 0)" by auto
    show ?thesis
      using a hpos n ok by (auto simp: GetNetworkHashPS_def code_anchor Let_def)
  qed
  also have "\<dots> = Inr (spec_estimate interval lookback anchor)"
    by (simp only: wb) (simp add: spec_estimate_def Let_def)
  finally show "GetNetworkHashPS chain interval lookback at_height
                    = Inr (spec_estimate interval lookback anchor)" .
qed

lemma sample_window:
  "window (spec_lookback 2016 2 120) sample_index2 = [sample_index2, sample_index1, sample_genesis]"
  by (simp add: spec_lookback_def numeral_2_eq_2 sample_index2_def sample_index1_def)

theorem GetNetworkHashPS_estimate_witness:
  "(0::int) < 2016
   \<and> spec_anchor sample_chain (-1) = Some sample_index2
   \<and> 0 < GetHeight sample_index2
   \<and> GetNetworkHashPS sample_chain 2016 120 (-1) = Inr (VQUOT 6 120)
   \<and> GetNetworkHashPS sample_chain 2 (-1) (-1) = Inr (VQUOT 4 60)
   \<and> GetNetworkHashPS [sample_genesis] 2016 120 (-1) = Inr (VNUM 0)"
proof -
  have z: "(0::int) < 2016 \<or> (0::int) < 120" and z2: "(0::int) < 2 \<or> (0::int) < - 1"
    by simp_all
  note w = GetNetworkHashPS_estimate [OF z, of sample_chain "-1"]
  note w2 = GetNetworkHashPS_estimate [OF z2, of sample_chain "-1"]
  note g = GetNetworkHashPS_estimate [OF z, of "[sample_genesis]" "-1"]
  have a: "spec_anchor sample_chain (-1) = Some sample_index2"
    by (simp add: spec_anchor_def sample_chain_def)
  have h: "GetHeight sample_index2 = 2" by (simp add: sample_index2_def)
  have l: "spec_lookback 2016 2 120 = Suc (Suc 0)" by (simp add: spec_lookback_def)
  have l2: "spec_lookback 2 2 (- 1) = Suc 0" by (simp add: spec_lookback_def)
  have win2: "window (Suc 0) sample_index2 = [sample_index2, sample_index1]"
    by (simp add: sample_index2_def)
  have e: "spec_estimate 2016 120 sample_index2 = VQUOT 6 120"
    unfolding spec_estimate_def h sample_window
    by (simp add: sample_index2_def sample_index1_def sample_genesis_def)
  have e2: "spec_estimate 2 (- 1) sample_index2 = VQUOT 4 60"
    unfolding spec_estimate_def h l2 win2
    by (simp add: sample_index2_def sample_index1_def sample_genesis_def)
  from w a h l sample_window e have "GetNetworkHashPS sample_chain 2016 120 (-1) = Inr (VQUOT 6 120)"
    by simp
  moreover from w2 a h l2 win2 e2 have "GetNetworkHashPS sample_chain 2 (-1) (-1) = Inr (VQUOT 4 60)"
    by simp
  moreover from g have "GetNetworkHashPS [sample_genesis] 2016 120 (-1) = Inr (VNUM 0)"
    by (simp add: spec_anchor_def sample_genesis_def)
  ultimately show ?thesis using a h by simp
qed

subsection \<open>Hex and decimal strings\<close>

lemma hex_val_hex_char: "d < 16 \<Longrightarrow> hex_val (hex_char d) = Some d"
  by (auto simp: hex_val_def hex_char_def Let_def)

lemma is_hex_hex_char: "d < 16 \<Longrightarrow> is_hex (hex_char d)"
  by (simp add: is_hex_def hex_val_hex_char)

lemma length_hex_digits: "length (hex_digits k n) = k"
  by (induction k arbitrary: n) simp_all

lemma all_hex_hex_digits: "list_all is_hex (hex_digits k n)"
  by (induction k arbitrary: n) (simp_all add: is_hex_hex_char)

lemma foldl_hex_digits:
  "foldl (\<lambda>a c. 16 * a + the (hex_val c)) 0 (hex_digits k n) = n mod 16 ^ k"
proof (induction k arbitrary: n)
  case 0
  show ?case by simp
next
  case (Suc k)
  have "foldl (\<lambda>a c. 16 * a + the (hex_val c)) 0 (hex_digits (Suc k) n)
          = 16 * (n div 16 mod 16 ^ k) + n mod 16"
    by (simp add: Suc.IH hex_val_hex_char)
  also have "\<dots> = n mod 16 ^ Suc k"
    by (simp add: mod_mult2_eq add.commute)
  finally show ?case .
qed

lemma takeWhile_all': "list_all P xs \<Longrightarrow> takeWhile P xs = xs"
  by (induction xs) simp_all

lemma parse_hex_GetHex: "parse_hex (GetHex h) = unat h"
proof -
  have "unat h < 2 ^ 256" using unsigned_less[of h, where 'a = nat] by simp
  also have "(2::nat) ^ 256 = 16 ^ 64" by simp
  finally have "unat h mod 16 ^ 64 = unat h" by simp
  then show ?thesis
    by (simp add: parse_hex_def GetHex_def takeWhile_all' all_hex_hex_digits foldl_hex_digits)
qed

lemma SetHex_GetHex: "SetHex (GetHex h) = h"
  by (simp add: SetHex_def parse_hex_GetHex)

lemma digit_char_props: "d < 10 \<Longrightarrow> is_digit (digit_char d) \<and> digit_val (digit_char d) = d"
  by (auto simp: is_digit_def digit_val_def digit_char_def)

lemma all_digits_dec_digits: "list_all is_digit (dec_digits n)"
proof (induction n rule: dec_digits.induct)
  case (1 n)
  show ?case
  proof (cases "n < 10")
    case True
    then show ?thesis by (subst dec_digits.simps) (simp add: digit_char_props)
  next
    case False
    then show ?thesis using "1.IH"
      by (subst dec_digits.simps) (simp add: digit_char_props)
  qed
qed

lemma foldl_dec_digits:
  "foldl (\<lambda>a c. 10 * a + digit_val c) 0 (dec_digits n) = n"
proof (induction n rule: dec_digits.induct)
  case (1 n)
  show ?case
  proof (cases "n < 10")
    case True
    then show ?thesis by (subst dec_digits.simps) (simp add: digit_char_props)
  next
    case False
    then show ?thesis using "1.IH"
      by (subst dec_digits.simps) (simp add: digit_char_props)
  qed
qed

lemma dec_digits_nonempty: "dec_digits n \<noteq> []"
  by (subst dec_digits.simps) simp

lemma hd_dec_digits: "hd (dec_digits n) \<noteq> CHR ''-''"
proof -
  have "list_all is_digit (dec_digits n)" by (rule all_digits_dec_digits)
  then have "is_digit (hd (dec_digits n))"
    using dec_digits_nonempty[of n] by (cases "dec_digits n") simp_all
  then show ?thesis by (auto simp: is_digit_def)
qed

lemma parse_dec_dec_digits: "parse_dec (dec_digits n) = n"
  by (simp add: parse_dec_def takeWhile_all' all_digits_dec_digits foldl_dec_digits)

lemma atoi64_i64tostr: "0 \<le> i \<Longrightarrow> i < 2 ^ 63 \<Longrightarrow> atoi64 (i64tostr i) = i"
proof -
  assume i: "0 \<le> i" "i < 2 ^ 63"
  obtain c r where cr: "dec_digits (nat i) = c # r"
    using dec_digits_nonempty[of "nat i"] by (cases "dec_digits (nat i)") auto
  have "c \<noteq> CHR ''-''" using hd_dec_digits[of "nat i"] cr by simp
  then have "atoi64 (dec_digits (nat i)) = min (2 ^ 63 - 1) (int (parse_dec (dec_digits (nat i))))"
    by (simp add: atoi64_def cr)
  then show ?thesis using i by (simp add: i64tostr_def parse_dec_dec_digits)
qed

subsection \<open>Long polling\<close>

lemma parse_longpollid_longpollid: "parse_longpollid (longpollid h n) = Inr (h, n)"
proof -
  have u: "0 \<le> uint n" "uint n < 2 ^ 63"
    using uint_lt2p[of n] by simp_all
  have "parse_longpollid (GetHex h @ i64tostr (uint n))
          = Inr (SetHex (GetHex h), word_of_int (atoi64 (i64tostr (uint n))))"
    by (simp add: parse_longpollid_def GetHex_def length_hex_digits)
  also have "\<dots> = Inr (h, n)"
    by (simp add: SetHex_GetHex atoi64_i64tostr[OF u])
  finally show ?thesis by (simp add: longpollid_def)
qed

text \<open>
  C9. The \<^verbatim>\<open>longpollid\<close> of a tip hash and a counter is the hash as exactly 64 hex
  characters followed by the counter in decimal digits, and reading that string back (the
  first 64 characters as the hash, the rest as the decimal counter) gives the same hash
  and counter, also as the baseline of a long-poll wait.
\<close>

theorem longpollid_roundtrip:
  "longpollid h n = GetHex h @ dec_digits (unat n)
   \<and> length (GetHex h) = 64 \<and> list_all is_hex (GetHex h)
   \<and> list_all is_digit (dec_digits (unat n)) \<and> dec_digits (unat n) \<noteq> []
   \<and> parse_longpollid (longpollid h n) = Inr (h, n)
   \<and> longpoll_baseline (VSTR (longpollid h n)) tipHash nLast = Inr (h, n)"
proof -
  have "0 \<le> uint n" by simp
  then have "longpollid h n = GetHex h @ dec_digits (unat n)"
    by (simp add: longpollid_def i64tostr_def)
  moreover have "length (GetHex h) = 64" by (simp add: GetHex_def length_hex_digits)
  moreover have "list_all is_hex (GetHex h)" by (simp add: GetHex_def all_hex_hex_digits)
  moreover have "list_all is_digit (dec_digits (unat n))" by (rule all_digits_dec_digits)
  moreover have "dec_digits (unat n) \<noteq> []" by (rule dec_digits_nonempty)
  moreover have "parse_longpollid (longpollid h n) = Inr (h, n)"
    by (rule parse_longpollid_longpollid)
  moreover have "longpoll_baseline (VSTR (longpollid h n)) tipHash nLast = Inr (h, n)"
    by (simp add: longpoll_baseline_def parse_longpollid_longpollid)
  ultimately show ?thesis by blast
qed

theorem longpollid_roundtrip_witness:
  "parse_longpollid (longpollid 0xabc 5) = Inr (0xabc, 5)
   \<and> length (GetHex 0xabc) = 64"
  using longpollid_roundtrip [of "0xabc" 5 0 0] by blast

lemma longpoll_wait_not_watching:
  "\<not> (view_tip v = h \<and> view_rpcRunning v) \<Longrightarrow> longpoll_wait h n t v ws = (after_wait v, [])"
  by (cases ws) auto

lemma longpoll_wait_quiet:
  assumes "list_all (quiet h n) P" and "view_tip v = h" and "view_rpcRunning v"
  shows "longpoll_wait h n t v (P @ rest) =
           (fst (longpoll_wait h n (t + 10 * int (timeouts P)) (last_view v P) rest),
            map (\<lambda>k. t + 10 * int (timeouts (take k P))) [0..<length P]
              @ snd (longpoll_wait h n (t + 10 * int (timeouts P)) (last_view v P) rest))"
  using assms
proof (induction P arbitrary: t v)
  case Nil
  show ?case by (simp add: timeouts_def last_view_def)
next
  case (Cons e P)
  obtain wk v' where e: "e = (wk, v')" by (cases e)
  from Cons.prems(1) have qe: "quiet h n e" and qs: "list_all (quiet h n) P"
    by simp_all
  from qe e have q: "view_tip v' = h" "view_rpcRunning v'"
    "wk = Notified \<or> view_txUpdated v' = n"
    by (simp_all add: quiet_def)
  let ?t' = "if wk = TimedOut then t + 10 else t"
  have lv: "last_view v (e # P) = last_view v' P"
    by (simp add: last_view_def e)
  have to: "t + 10 * int (timeouts (e # P)) = ?t' + 10 * int (timeouts P)"
    by (simp add: timeouts_def e)
  have tk: "map (\<lambda>k. t + 10 * int (timeouts (take k (e # P)))) [0..<length (e # P)]
          = t # map (\<lambda>k. ?t' + 10 * int (timeouts (take k P))) [0..<length P]"
    by (simp add: map_upt_Suc timeouts_def e del: upt_Suc)
  have step: "longpoll_wait h n t v ((e # P) @ rest) =
          (fst (longpoll_wait h n ?t' v' (P @ rest)), t # snd (longpoll_wait h n ?t' v' (P @ rest)))"
    using Cons.prems(2,3) q(3) by (cases wk) (auto simp: e Let_def)
  show ?case
    unfolding step Cons.IH[OF qs q(1) q(2), of ?t'] lv to tk by simp
qed

lemma last_view_quiet:
  "list_all (quiet h n) P \<Longrightarrow> view_tip v = h \<Longrightarrow> view_rpcRunning v
     \<Longrightarrow> view_tip (last_view v P) = h \<and> view_rpcRunning (last_view v P)"
  by (cases P rule: rev_cases) (simp_all add: last_view_def quiet_def)

lemma deadlines_Suc:
  "map (\<lambda>k. t + 10 * int (timeouts (take k P))) [0..<length P] @ [t + 10 * int (timeouts P)]
     = map (\<lambda>k. t + 10 * int (timeouts (take k P))) [0..<Suc (length P)]"
  by simp

lemma longpoll_wait_blocked:
  assumes "list_all (quiet h n) P" and "view_tip v = h" and "view_rpcRunning v"
  shows "longpoll_wait h n t v P =
           (None, map (\<lambda>k. t + 10 * int (timeouts (take k P))) [0..<Suc (length P)])"
proof -
  have "longpoll_wait h n t v (P @ []) =
          (None, map (\<lambda>k. t + 10 * int (timeouts (take k P))) [0..<length P]
                   @ [t + 10 * int (timeouts P)])"
    unfolding longpoll_wait_quiet[OF assms]
    using last_view_quiet[OF assms] by simp
  then show ?thesis by (simp only: deadlines_Suc append_Nil2)
qed

lemma longpoll_wait_decisive:
  assumes "list_all (quiet h n) P" and "view_tip v = h" and "view_rpcRunning v"
    and "\<not> quiet h n (wk, v')"
  shows "longpoll_wait h n t v (P @ (wk, v') # rest) =
           (after_wait v', map (\<lambda>k. t + 10 * int (timeouts (take k P))) [0..<Suc (length P)])"
proof -
  let ?t = "t + 10 * int (timeouts P)"
  have lv: "view_tip (last_view v P) = h \<and> view_rpcRunning (last_view v P)"
    by (rule last_view_quiet[OF assms(1-3)])
  have "longpoll_wait h n ?t (last_view v P) ((wk, v') # rest) = (after_wait v', [?t])"
  proof (cases "wk = TimedOut \<and> view_txUpdated v' \<noteq> n")
    case True
    then show ?thesis using lv by simp
  next
    case False
    with assms(4) have nw: "\<not> (view_tip v' = h \<and> view_rpcRunning v')"
      by (cases wk) (auto simp: quiet_def)
    show ?thesis
      using lv False longpoll_wait_not_watching[OF nw] by (cases wk) (auto simp: Let_def)
  qed
  then have "longpoll_wait h n t v (P @ (wk, v') # rest) =
          (after_wait v', map (\<lambda>k. t + 10 * int (timeouts (take k P))) [0..<length P] @ [?t])"
    unfolding longpoll_wait_quiet[OF assms(1-3)] by simp
  then show ?thesis by (simp only: deadlines_Suc)
qed

text \<open>
  C8. A wait with baseline tip \<open>h\<close> and baseline counter \<open>n\<close>, started at time \<open>now\<close>.
  If at entry the tip differs from \<open>h\<close> or the service does not run, the caller never
  sleeps. Otherwise, as long as every wake is quiet, the caller is still asleep, and the
  deadline of its sleep number \<open>k\<close> is \<open>now + 60\<close> plus 10 for every timeout among the
  first \<open>k\<close> wakes: the first timeout comes 60 after the start, every later one 10 after
  the one before. The first wake that is not quiet (the tip differs, or the service does
  not run, or it is a timeout that finds the mempool counter different from \<open>n\<close>) ends the
  wait: with the error \<^verbatim>\<open>Shutting down\<close> when the service does not run at that wake, and
  with a normal return otherwise.
\<close>

theorem getblocktemplate_longpoll_wait:
  assumes "lpval \<noteq> NullUniValue"
    and "longpoll_baseline lpval (view_tip v) nLast = Inr (h, n)"
  shows "(\<not> (view_tip v = h \<and> view_rpcRunning v) \<longrightarrow>
            getblocktemplate_longpoll lpval nLast now v wakes =
              (Some (if view_rpcRunning v then Inr ()
                     else Inl (JSONRPCError RPC_CLIENT_NOT_CONNECTED ''Shutting down'')), []))
     \<and> (view_tip v = h \<and> view_rpcRunning v \<and> list_all (quiet h n) P \<longrightarrow>
          getblocktemplate_longpoll lpval nLast now v P =
            (None, map (\<lambda>k. now + 60 + 10 * int (timeouts (take k P))) [0..<Suc (length P)])
          \<and> (\<not> quiet h n (wk, v') \<longrightarrow>
               getblocktemplate_longpoll lpval nLast now v (P @ (wk, v') # rest) =
                 (Some (if view_rpcRunning v' then Inr ()
                        else Inl (JSONRPCError RPC_CLIENT_NOT_CONNECTED ''Shutting down'')),
                  map (\<lambda>k. now + 60 + 10 * int (timeouts (take k P))) [0..<Suc (length P)])))"
proof -
  have g: "getblocktemplate_longpoll lpval nLast now v ws = longpoll_wait h n (now + 60) v ws" for ws
    using assms by (simp add: getblocktemplate_longpoll_def)
  have aw: "after_wait u = Some (if view_rpcRunning u then Inr ()
                     else Inl (JSONRPCError RPC_CLIENT_NOT_CONNECTED ''Shutting down''))" for u
    by (simp add: after_wait_def)
  show ?thesis
    unfolding g
    using longpoll_wait_not_watching[of v h n "now + 60" wakes]
      longpoll_wait_blocked[of h n P v "now + 60"]
      longpoll_wait_decisive[of h n P v wk v' "now + 60" rest]
    by (simp only: aw) blast
qed

theorem getblocktemplate_longpoll_wait_witness:
  "VSTR (longpollid 7 7) \<noteq> NullUniValue
   \<and> longpoll_baseline (VSTR (longpollid 7 7)) (view_tip sample_view) 0 = Inr (7, 7)
   \<and> getblocktemplate_longpoll (VSTR (longpollid 7 7)) 0 1000 sample_view
        [(Notified, sample_view), (TimedOut, sample_view)] = (None, [1060, 1060, 1070])
   \<and> getblocktemplate_longpoll (VSTR (longpollid 7 7)) 0 1000 sample_view
        [(Notified, sample_view), (TimedOut, sample_view),
         (TimedOut, sample_view\<lparr>view_txUpdated := 8\<rparr>)] = (Some (Inr ()), [1060, 1060, 1070])
   \<and> getblocktemplate_longpoll (VSTR (longpollid 7 7)) 0 1000 sample_view
        [(Notified, sample_view), (TimedOut, sample_view),
         (Notified, sample_view\<lparr>view_rpcRunning := False\<rparr>)]
       = (Some (Inl (JSONRPCError RPC_CLIENT_NOT_CONNECTED ''Shutting down'')), [1060, 1060, 1070])"
proof -
  have b: "longpoll_baseline (VSTR (longpollid 7 7)) (view_tip sample_view) 0 = Inr (7, 7)"
    by (simp add: longpoll_baseline_def parse_longpollid_longpollid)
  have nn: "VSTR (longpollid 7 7) \<noteq> NullUniValue" by simp
  have q: "list_all (quiet 7 7) [(Notified, sample_view), (TimedOut, sample_view)]"
    by (simp add: quiet_def sample_view_def)
  have d: "map (\<lambda>k. 1000 + 60 + 10 * int (timeouts (take k [(Notified, sample_view), (TimedOut, sample_view)])))
             [0..<Suc (length [(Notified, sample_view), (TimedOut, sample_view)])] = [1060, 1060, 1070]"
    by (simp add: timeouts_def upt_rec)
  note w = getblocktemplate_longpoll_wait [OF nn b,
      where P = "[(Notified, sample_view), (TimedOut, sample_view)]" and wk = TimedOut
        and v' = "sample_view\<lparr>view_txUpdated := 8\<rparr>" and now = 1000 and rest = "[]"
        and wakes = "[]"]
  note w2 = getblocktemplate_longpoll_wait [OF nn b,
      where P = "[(Notified, sample_view), (TimedOut, sample_view)]" and wk = Notified
        and v' = "sample_view\<lparr>view_rpcRunning := False\<rparr>" and now = 1000 and rest = "[]"
        and wakes = "[]"]
  have v: "view_tip sample_view = 7 \<and> view_rpcRunning sample_view" by (simp add: sample_view_def)
  have nq1: "\<not> quiet 7 7 (TimedOut, sample_view\<lparr>view_txUpdated := 8\<rparr>)"
    by (simp add: quiet_def sample_view_def)
  have nq2: "\<not> quiet 7 7 (Notified, sample_view\<lparr>view_rpcRunning := False\<rparr>)"
    by (simp add: quiet_def sample_view_def)
  from w v q nq1 d have
    "getblocktemplate_longpoll (VSTR (longpollid 7 7)) 0 1000 sample_view
        [(Notified, sample_view), (TimedOut, sample_view)] = (None, [1060, 1060, 1070])"
    "getblocktemplate_longpoll (VSTR (longpollid 7 7)) 0 1000 sample_view
        [(Notified, sample_view), (TimedOut, sample_view),
         (TimedOut, sample_view\<lparr>view_txUpdated := 8\<rparr>)] = (Some (Inr ()), [1060, 1060, 1070])"
    by (simp_all add: sample_view_def)
  moreover from w2 v q nq2 d have
    "getblocktemplate_longpoll (VSTR (longpollid 7 7)) 0 1000 sample_view
        [(Notified, sample_view), (TimedOut, sample_view),
         (Notified, sample_view\<lparr>view_rpcRunning := False\<rparr>)]
       = (Some (Inl (JSONRPCError RPC_CLIENT_NOT_CONNECTED ''Shutting down'')), [1060, 1060, 1070])"
    by (simp add: sample_view_def)
  ultimately show ?thesis using b nn by blast
qed

text \<open>
  C10, as stated, fails: the baseline counter of a \<^verbatim>\<open>longpollid\<close> that is not a string
  is the static \<^verbatim>\<open>nTransactionsUpdatedLast\<close> of the last template build, not the
  mempool's current counter. With the static at 0 and the mempool counter at 7, the
  baseline counter is 0, and the call returns at the first timeout although neither the
  tip nor the mempool changed while it waited.
\<close>

theorem longpoll_nonstring_baseline_counterexample:
  "longpoll_baseline (VNUM 1) (view_tip sample_view) 0 = Inr (view_tip sample_view, 0)
   \<and> view_txUpdated sample_view = 7
   \<and> longpoll_baseline (VNUM 1) (view_tip sample_view) 0
       \<noteq> Inr (view_tip sample_view, view_txUpdated sample_view)
   \<and> getblocktemplate_longpoll (VNUM 1) 0 1000 sample_view [(TimedOut, sample_view)]
       = (Some (Inr ()), [1060])"
  by (simp add: longpoll_baseline_def getblocktemplate_longpoll_def sample_view_def
      after_wait_def)

text \<open>
  C10, amended. A \<^verbatim>\<open>longpollid\<close> that is present but not a string raises no error: the
  baseline is the current tip hash and the static \<^verbatim>\<open>nTransactionsUpdatedLast\<close> (the
  mempool counter recorded at the last template build; not the mempool's current
  counter). The call then stays blocked as long as every wake finds the tip unchanged and
  the service running and every timeout finds the mempool counter equal to that recorded
  value; it ends at the first wake that does not, with the error \<^verbatim>\<open>Shutting down\<close> when
  the service no longer runs and with a normal return otherwise. So it returns at the first
  timeout whenever the mempool counter differs from the recorded value, whether or not
  anything changed during the wait.
\<close>

theorem longpoll_nonstring_baseline:
  assumes "lpval \<noteq> NullUniValue" and "\<forall>s. lpval \<noteq> VSTR s"
  shows "longpoll_baseline lpval (view_tip v) nLast = Inr (view_tip v, nLast)
     \<and> (\<not> view_rpcRunning v \<longrightarrow>
          fst (getblocktemplate_longpoll lpval nLast now v wakes)
            = Some (Inl (JSONRPCError RPC_CLIENT_NOT_CONNECTED ''Shutting down'')))
     \<and> (view_rpcRunning v \<and> list_all (quiet (view_tip v) nLast) P \<longrightarrow>
          fst (getblocktemplate_longpoll lpval nLast now v P) = None
          \<and> (\<not> quiet (view_tip v) nLast (wk, v') \<longrightarrow>
               fst (getblocktemplate_longpoll lpval nLast now v (P @ (wk, v') # rest))
                 = Some (if view_rpcRunning v' then Inr ()
                         else Inl (JSONRPCError RPC_CLIENT_NOT_CONNECTED ''Shutting down''))))"
proof -
  have b: "longpoll_baseline lpval (view_tip v) nLast = Inr (view_tip v, nLast)"
    using assms by (cases lpval) (simp_all add: longpoll_baseline_def)
  have g: "getblocktemplate_longpoll lpval nLast now v ws
             = longpoll_wait (view_tip v) nLast (now + 60) v ws" for ws
    using assms(1) b by (simp add: getblocktemplate_longpoll_def)
  have aw: "after_wait u = Some (if view_rpcRunning u then Inr ()
                     else Inl (JSONRPCError RPC_CLIENT_NOT_CONNECTED ''Shutting down''))" for u
    by (simp add: after_wait_def)
  have c1: "\<not> view_rpcRunning v \<longrightarrow>
          fst (longpoll_wait (view_tip v) nLast (now + 60) v wakes)
            = Some (Inl (JSONRPCError RPC_CLIENT_NOT_CONNECTED ''Shutting down''))"
    using longpoll_wait_not_watching[of v "view_tip v" nLast "now + 60" wakes]
    by (simp add: aw)
  have c2: "view_rpcRunning v \<and> list_all (quiet (view_tip v) nLast) P \<longrightarrow>
          fst (longpoll_wait (view_tip v) nLast (now + 60) v P) = None"
    using longpoll_wait_blocked[of "view_tip v" nLast P v "now + 60"] by simp
  have c3: "view_rpcRunning v \<and> list_all (quiet (view_tip v) nLast) P \<longrightarrow>
          \<not> quiet (view_tip v) nLast (wk, v') \<longrightarrow>
               fst (longpoll_wait (view_tip v) nLast (now + 60) v (P @ (wk, v') # rest))
                 = Some (if view_rpcRunning v' then Inr ()
                         else Inl (JSONRPCError RPC_CLIENT_NOT_CONNECTED ''Shutting down''))"
    using longpoll_wait_decisive[of "view_tip v" nLast P v wk v' "now + 60" rest]
    by (simp add: aw)
  show ?thesis unfolding g using b c1 c2 c3 by blast
qed

theorem longpoll_nonstring_baseline_witness:
  "VNUM 1 \<noteq> NullUniValue
   \<and> longpoll_baseline (VNUM 1) (view_tip sample_view) 7 = Inr (7, 7)
   \<and> fst (getblocktemplate_longpoll (VNUM 1) 7 1000 sample_view [(TimedOut, sample_view)]) = None
   \<and> fst (getblocktemplate_longpoll (VNUM 1) 7 1000 sample_view
            [(TimedOut, sample_view), (Notified, sample_view\<lparr>view_tip := 9\<rparr>)]) = Some (Inr ())"
proof -
  have nn: "VNUM 1 \<noteq> NullUniValue" and ns: "\<forall>s. VNUM 1 \<noteq> VSTR s" by simp_all
  note w = longpoll_nonstring_baseline [OF nn ns, where v = sample_view and nLast = 7
      and now = 1000 and P = "[(TimedOut, sample_view)]" and wk = Notified
      and v' = "sample_view\<lparr>view_tip := 9\<rparr>" and rest = "[]" and wakes = "[]"]
  have q: "list_all (quiet (view_tip sample_view) 7) [(TimedOut, sample_view)]"
    by (simp add: quiet_def sample_view_def)
  have nq: "\<not> quiet (view_tip sample_view) 7 (Notified, sample_view\<lparr>view_tip := 9\<rparr>)"
    by (simp add: quiet_def sample_view_def)
  have r: "view_rpcRunning sample_view" "view_rpcRunning (sample_view\<lparr>view_tip := 9\<rparr>)"
    "view_tip sample_view = 7"
    by (simp_all add: sample_view_def)
  from w q nq r show ?thesis by simp
qed

subsection \<open>The cached template\<close>








end
